theory Spec2Isabelle
  imports Main "HOL-Library.Word"
begin

section \<open>Exceptions and byte strings\<close>

text \<open>
  Python exceptions are values.  Every \<^verbatim>\<open>raise\<close> and every failing \<^verbatim>\<open>assert\<close> of the
  sources is a branch returning \<open>Inl\<close>.  A message constructor stands for the format
  string of the source together with its arguments.
\<close>

type_synonym byte = "8 word"
type_synonym bytes = "byte list"

datatype message =
    NotOnCurve int int
  | NoModularInverse int int
  | InvalidPrivateKey
  | InvalidPrivateKeyWIF string
  | NotInAlphabet
  | HardenedKey
  | InvalidChildKey
  | InvalidChildKeyIndex int
  | WrongChecksum bytes
  | InvalidSerialized bytes
  | WrongMasterKey
  | InvalidShaType

datatype error =
    AssertionError message
  | ValueError message
  | OverflowError
  | ZeroDivisionError
  | AttributeError
  | TypeError
  | IndexError

subsection \<open>utils.py: integers and bytes\<close>

text \<open>\<^verbatim>\<open>int.from_bytes(b, byteorder="big", signed=False)\<close>\<close>

definition bytes2int :: "bytes \<Rightarrow> int" where
  "bytes2int b = foldl (\<lambda>n c. n * 256 + uint c) 0 b"

text \<open>\<^verbatim>\<open>i.to_bytes(length, byteorder="big")\<close> for an integer known to fit.\<close>

fun to_bytes :: "nat \<Rightarrow> int \<Rightarrow> bytes" where
  "to_bytes 0 i = []"
| "to_bytes (Suc n) i = to_bytes n (i div 256) @ [word_of_int (i mod 256)]"

text \<open>The number of bytes \<^verbatim>\<open>ceil(i.bit_length() / 8)\<close> of a non-negative integer.\<close>

function byte_length :: "int \<Rightarrow> nat" where
  "byte_length i = (if i \<le> 0 then 0 else Suc (byte_length (i div 256)))"
  by pat_completeness auto
termination
  by (relation "measure nat") auto

text \<open>
  \<^verbatim>\<open>int2bytes(i, length=32)\<close>; \<open>None\<close> asks for the least possible length.
  \<^verbatim>\<open>to_bytes\<close> raises \<^verbatim>\<open>OverflowError\<close> for a negative integer and for one too big.
\<close>

definition int2bytes_len :: "int \<Rightarrow> nat option \<Rightarrow> error + bytes" where
  "int2bytes_len i len =
     (if i < 0 then Inl OverflowError
      else (let n = (case len of None \<Rightarrow> byte_length i | Some l \<Rightarrow> l)
            in if i < 256 ^ n then Inr (to_bytes n i) else Inl OverflowError))"

definition int2bytes :: "int \<Rightarrow> error + bytes" where
  "int2bytes i = int2bytes_len i (Some 32)"

subsection \<open>utils.py: modular inverse\<close>

function egcd :: "int \<Rightarrow> int \<Rightarrow> int \<times> int \<times> int" where
  "egcd a b =
     (if a = 0 then (b, 0, 1)
      else (case egcd (b mod a) a of (g, y, x) \<Rightarrow> (g, x - y * (b div a), y)))"
  by pat_completeness auto
termination
  by (relation "measure (\<lambda>(a, b). nat \<bar>a\<bar>)") (auto simp: abs_mod_less)

definition mod_inverse :: "int \<Rightarrow> int \<Rightarrow> error + int" where
  "mod_inverse a m =
     (case egcd a m of (g, x, y) \<Rightarrow>
        if g \<noteq> 1 then Inl (ValueError (NoModularInverse a m))
        else if m = 0 then Inl ZeroDivisionError
        else Inr (x mod m))"

subsection \<open>utils.py: Base58\<close>

definition BASE58_ALPHABET :: string where
  "BASE58_ALPHABET = ''123456789ABCDEFGHJKLMNPQRSTUVWXYZabcdefghijkmnopqrstuvwxyz''"

definition BASE58_COUNT :: int where
  "BASE58_COUNT = int (length BASE58_ALPHABET)"

text \<open>
  The \<^verbatim>\<open>while num >= BASE58_COUNT\<close> loop of \<^verbatim>\<open>base58_encode\<close>; it returns the last
  quotient and the digits written so far.  The index into the alphabet is a remainder
  modulo its length, hence in range.
\<close>

function base58_encode_loop :: "int \<Rightarrow> string \<Rightarrow> int \<times> string" where
  "base58_encode_loop num encoded =
     (if num \<ge> BASE58_COUNT
      then base58_encode_loop (num div BASE58_COUNT)
             (BASE58_ALPHABET ! nat (num mod BASE58_COUNT) # encoded)
      else (num, encoded))"
  by pat_completeness auto
termination
  by (relation "measure (\<lambda>(num, encoded). nat num)")
    (auto simp: BASE58_COUNT_def BASE58_ALPHABET_def)

definition base58_encode :: "bytes \<Rightarrow> string" where
  "base58_encode b =
     (case base58_encode_loop (bytes2int b) [] of
        (num, encoded) \<Rightarrow>
          if num \<noteq> 0 then BASE58_ALPHABET ! nat num # encoded else encoded)"

text \<open>\<^verbatim>\<open>str.index\<close> for one character: the first position, or nothing (\<^verbatim>\<open>ValueError\<close>).\<close>

fun str_index :: "string \<Rightarrow> char \<Rightarrow> nat option" where
  "str_index [] c = None"
| "str_index (d # ds) c =
     (if d = c then Some 0 else map_option Suc (str_index ds c))"

text \<open>The \<^verbatim>\<open>for char in s\<close> loop of \<^verbatim>\<open>base58_decode\<close>, over the reversed string.\<close>

fun base58_decode_loop :: "string \<Rightarrow> int \<Rightarrow> int \<Rightarrow> error + int" where
  "base58_decode_loop [] decoded multi = Inr decoded"
| "base58_decode_loop (c # cs) decoded multi =
     (case str_index BASE58_ALPHABET c of
        None \<Rightarrow> Inl (ValueError NotInAlphabet)
      | Some i \<Rightarrow>
          base58_decode_loop cs (decoded + multi * int i) (multi * BASE58_COUNT))"

definition base58_decode :: "string \<Rightarrow> nat option \<Rightarrow> error + bytes" where
  "base58_decode s len =
     (case base58_decode_loop (rev s) 0 1 of
        Inl e \<Rightarrow> Inl e
      | Inr decoded \<Rightarrow> int2bytes_len decoded len)"

subsection \<open>utils.py: hashes\<close>

text \<open>
  The digests come from Python's \<^verbatim>\<open>hashlib\<close> and \<^verbatim>\<open>hmac\<close>, which are not part of the
  repository: they are parameters, selected by the name of the algorithm as the source
  selects them.
\<close>

record hashlib =
  digest :: "string \<Rightarrow> bytes \<Rightarrow> bytes"
  hmac_digest :: "string \<Rightarrow> bytes \<Rightarrow> bytes \<Rightarrow> bytes"
  ripemd :: "bytes \<Rightarrow> bytes"

definition sha_types :: "string list" where
  "sha_types = [''1'', ''224'', ''256'', ''384'', ''512'']"

definition sha :: "hashlib \<Rightarrow> bytes \<Rightarrow> string \<Rightarrow> error + bytes" where
  "sha L data ty =
     (if ty \<in> set sha_types then Inr (digest L ty data) else Inl (ValueError InvalidShaType))"

definition hmac_sha :: "hashlib \<Rightarrow> bytes \<Rightarrow> bytes \<Rightarrow> string \<Rightarrow> error + bytes" where
  "hmac_sha L secret data ty =
     (if ty \<in> set sha_types then Inr (hmac_digest L ty secret data)
      else Inl (ValueError InvalidShaType))"

text \<open>\<^verbatim>\<open>sha256\<close> on bytes and \<^verbatim>\<open>hmac_sha512\<close>: the branch on the type is the one of ''256'', ''512''.\<close>

definition sha256 :: "hashlib \<Rightarrow> bytes \<Rightarrow> bytes" where
  "sha256 L data = digest L ''256'' data"

definition hmac_sha512 :: "hashlib \<Rightarrow> bytes \<Rightarrow> bytes \<Rightarrow> bytes" where
  "hmac_sha512 L secret data = hmac_digest L ''512'' secret data"

definition ripemd160 :: "hashlib \<Rightarrow> bytes \<Rightarrow> bytes" where
  "ripemd160 L data = ripemd L data"

section \<open>ecpoint.py\<close>

definition SECP256K1_A :: int where "SECP256K1_A = 0"
definition SECP256K1_B :: int where "SECP256K1_B = 7"
definition SECP256K1_GX :: int where
  "SECP256K1_GX = 0x79be667ef9dcbbac55a06295ce870b07029bfcdb2dce28d959f2815b16f81798"
definition SECP256K1_GY :: int where
  "SECP256K1_GY = 0x483ada7726a3c4655da4fbfc0e1108a8fd17b448a68554199c47d08ffb10d4b8"
definition SECP256K1_P :: int where
  "SECP256K1_P = 2^256 - 2^32 - 2^9 - 2^8 - 2^7 - 2^6 - 2^4 - 1"
definition SECP256K1_ORDER :: int where
  "SECP256K1_ORDER = 0xfffffffffffffffffffffffffffffffebaaedce6af48a03bbfd25e8cd0364141"

text \<open>An object of class \<^verbatim>\<open>ECPoint\<close>: its five attributes.\<close>

record ECPoint =
  ec_x :: int
  ec_y :: int
  ec_a :: int
  ec_b :: int
  ec_mod :: int

text \<open>\<^verbatim>\<open>(y ** 2 - (x ** 3 + a * x + b)) % mod == 0\<close>\<close>

definition is_contained :: "int \<Rightarrow> int \<Rightarrow> int \<Rightarrow> int \<Rightarrow> int \<Rightarrow> error + bool" where
  "is_contained x y a b m =
     (if m = 0 then Inl ZeroDivisionError
      else Inr ((y ^ 2 - (x ^ 3 + a * x + b)) mod m = 0))"

text \<open>
  The constructor: the pair \<open>(0, 0)\<close> is taken for the point at infinity and is not checked;
  any other pair is asserted to be on the curve.
\<close>

definition new_ECPoint :: "int \<Rightarrow> int \<Rightarrow> int \<Rightarrow> int \<Rightarrow> int \<Rightarrow> error + ECPoint" where
  "new_ECPoint x y a b m =
     (if x \<noteq> 0 \<or> y \<noteq> 0 then
        (case is_contained x y a b m of
           Inl e \<Rightarrow> Inl e
         | Inr ok \<Rightarrow>
             if ok then Inr \<lparr>ec_x = x, ec_y = y, ec_a = a, ec_b = b, ec_mod = m\<rparr>
             else Inl (AssertionError (NotOnCurve x y)))
      else Inr \<lparr>ec_x = x, ec_y = y, ec_a = a, ec_b = b, ec_mod = m\<rparr>)"

text \<open>\<^verbatim>\<open>ECPoint.infinity()\<close> is \<^verbatim>\<open>ECPoint(0, 0)\<close> with the default curve parameters.\<close>

definition infinity :: ECPoint where
  "infinity = \<lparr>ec_x = 0, ec_y = 0, ec_a = SECP256K1_A, ec_b = SECP256K1_B,
                ec_mod = SECP256K1_P\<rparr>"

text \<open>\<^verbatim>\<open>__eq__\<close> compares the coordinates only.\<close>

definition ec_eq :: "ECPoint \<Rightarrow> ECPoint \<Rightarrow> bool" where
  "ec_eq p q \<longleftrightarrow> ec_x p = ec_x q \<and> ec_y p = ec_y q"

definition double :: "ECPoint \<Rightarrow> error + ECPoint" where
  "double p =
     (if ec_eq p infinity then Inr infinity
      else if ec_mod p = 0 then Inl ZeroDivisionError
      else (let dy = (3 * ec_x p * ec_x p + ec_a p) mod ec_mod p;
                dx = (2 * ec_y p) mod ec_mod p
            in case mod_inverse dx (ec_mod p) of
                 Inl e \<Rightarrow> Inl e
               | Inr i \<Rightarrow>
                   (let s = (dy * i) mod ec_mod p;
                        x3 = (s * s - ec_x p - ec_x p) mod ec_mod p;
                        y3 = (s * (ec_x p - x3) - ec_y p) mod ec_mod p
                    in Inr \<lparr>ec_x = x3, ec_y = y3, ec_a = ec_a p, ec_b = ec_b p,
                            ec_mod = ec_mod p\<rparr>)))"

definition add :: "ECPoint \<Rightarrow> ECPoint \<Rightarrow> error + ECPoint" where
  "add p1 p2 =
     (if ec_eq p1 infinity then Inr p2
      else if ec_eq p2 infinity then Inr p1
      else if ec_x p1 = ec_x p2 then
        (if ec_y p1 = ec_y p2 then double p1 else Inr infinity)
      else if ec_mod p1 = 0 then Inl ZeroDivisionError
      else (let dy = (ec_y p2 - ec_y p1) mod ec_mod p1;
                dx = (ec_x p2 - ec_x p1) mod ec_mod p1
            in case mod_inverse dx (ec_mod p1) of
                 Inl e \<Rightarrow> Inl e
               | Inr i \<Rightarrow>
                   (let s = (dy * i) mod ec_mod p1;
                        x3 = (s * s - ec_x p1 - ec_x p2) mod ec_mod p1;
                        y3 = (s * (ec_x p1 - x3) - ec_y p1) mod ec_mod p1
                    in Inr \<lparr>ec_x = x3, ec_y = y3, ec_a = ec_a p1, ec_b = ec_b p1,
                            ec_mod = ec_mod p1\<rparr>)))"

text \<open>
  The loop of \<^verbatim>\<open>multiply\<close>: \<open>temp\<close> accumulates, \<open>p\<close> is doubled at the end of every
  round (also of the last one), \<open>x\<close> is halved.
\<close>

function multiply_loop :: "ECPoint \<Rightarrow> ECPoint \<Rightarrow> int \<Rightarrow> error + ECPoint" where
  "multiply_loop temp p x =
     (if x > 0 then
        (case (if x mod 2 \<noteq> 0
               then (if ec_eq temp p then double temp else add temp p)
               else Inr temp) of
           Inl e \<Rightarrow> Inl e
         | Inr temp' \<Rightarrow>
             (case double p of
                Inl e \<Rightarrow> Inl e
              | Inr p' \<Rightarrow>
                  multiply_loop temp' p' ((if x mod 2 \<noteq> 0 then x - 1 else x) div 2)))
      else Inr temp)"
  by pat_completeness auto
termination
  by (relation "measure (\<lambda>(temp, p, x). nat x)") auto

definition multiply :: "ECPoint \<Rightarrow> int \<Rightarrow> error + ECPoint" where
  "multiply p x =
     (case new_ECPoint (ec_x p) (ec_y p) (ec_a p) (ec_b p) (ec_mod p) of
        Inl e \<Rightarrow> Inl e
      | Inr temp \<Rightarrow> multiply_loop temp p (x - 1))"

text \<open>\<^verbatim>\<open>__add__\<close> and \<^verbatim>\<open>__mul__\<close>, the operators \<^verbatim>\<open>+\<close> and \<^verbatim>\<open>*\<close> on points.\<close>

definition ec_plus :: "ECPoint \<Rightarrow> ECPoint \<Rightarrow> error + ECPoint" where
  "ec_plus p q = (if ec_x p = ec_x q \<and> ec_y p = ec_y q then double p else add p q)"

definition ec_times :: "ECPoint \<Rightarrow> int \<Rightarrow> error + ECPoint" where
  "ec_times p k = multiply p k"

text \<open>\<^verbatim>\<open>KeysBTC.get_generator_point()\<close> calls the constructor on the generator.\<close>

definition get_generator_point :: "error + ECPoint" where
  "get_generator_point =
     new_ECPoint SECP256K1_GX SECP256K1_GY SECP256K1_A SECP256K1_B SECP256K1_P"

definition G :: ECPoint where
  "G = \<lparr>ec_x = SECP256K1_GX, ec_y = SECP256K1_GY, ec_a = SECP256K1_A,
         ec_b = SECP256K1_B, ec_mod = SECP256K1_P\<rparr>"

text \<open>
  \<^verbatim>\<open>get_secp256k1_y\<close>: a square root of \<open>x\<^sup>3 + a x + b\<close> by the exponent \<open>(p + 1) / 4\<close>,
  asserted to lie on the curve.  \<^verbatim>\<open>pow(z, e, p)\<close> with \<open>e \<ge> 0\<close> is \<open>z ^ e mod p\<close>.
\<close>

definition get_secp256k1_y :: "int \<Rightarrow> error + int" where
  "get_secp256k1_y x =
     (let y = ((x ^ 3 + x * SECP256K1_A + SECP256K1_B) ^ nat ((SECP256K1_P + 1) div 4))
                mod SECP256K1_P
      in case is_contained x y SECP256K1_A SECP256K1_B SECP256K1_P of
           Inl e \<Rightarrow> Inl e
         | Inr ok \<Rightarrow> if ok then Inr y else Inl (AssertionError (NotOnCurve x y)))"

section \<open>keys.py\<close>

text \<open>
  An object of class \<^verbatim>\<open>KeysBTC\<close>: the private key and the cached attributes, \<open>None\<close>
  until first computed.
\<close>

record KeysBTC =
  private_key :: bytes
  public_point :: "ECPoint option"
  public_key :: "bytes option"
  public_key_hash :: "bytes option"
  address :: "string option"

text \<open>
  The constructor for a private key given as bytes (a hexadecimal string is first
  converted by \<^verbatim>\<open>bytes.fromhex\<close>; with no argument the key is drawn at random).
\<close>

definition new_KeysBTC :: "bytes \<Rightarrow> error + KeysBTC" where
  "new_KeysBTC pk =
     (if bytes2int pk > 0
      then Inr \<lparr>private_key = pk, public_point = None, public_key = None,
                public_key_hash = None, address = None\<rparr>
      else Inl (AssertionError InvalidPrivateKey))"

definition get_private_key_int :: "KeysBTC \<Rightarrow> int" where
  "get_private_key_int k = bytes2int (private_key k)"

text \<open>\<^verbatim>\<open>get_public_point\<close> computes the point once and stores it in the object.\<close>

definition get_public_point :: "KeysBTC \<Rightarrow> error + (ECPoint \<times> KeysBTC)" where
  "get_public_point k =
     (case public_point k of
        Some q \<Rightarrow> Inr (q, k)
      | None \<Rightarrow>
          (case get_generator_point of
             Inl e \<Rightarrow> Inl e
           | Inr g \<Rightarrow>
               (case ec_times g (get_private_key_int k) of
                  Inl e \<Rightarrow> Inl e
                | Inr q \<Rightarrow> Inr (q, k\<lparr>public_point := Some q\<rparr>))))"

definition point_to_publickey :: "ECPoint \<Rightarrow> bool \<Rightarrow> error + bytes" where
  "point_to_publickey point compressed =
     (if compressed then
        (case int2bytes (ec_x point) of
           Inl e \<Rightarrow> Inl e
         | Inr xs \<Rightarrow> Inr ((if ec_y point mod 2 = 0 then [0x02] else [0x03]) @ xs))
      else
        (case int2bytes (ec_x point) of
           Inl e \<Rightarrow> Inl e
         | Inr xs \<Rightarrow>
             (case int2bytes (ec_y point) of
                Inl e \<Rightarrow> Inl e
              | Inr ys \<Rightarrow> Inr ([0x04] @ xs @ ys))))"

text \<open>\<^verbatim>\<open>get_public_key\<close> (compressed by default), with its cache.\<close>

definition get_public_key :: "KeysBTC \<Rightarrow> bool \<Rightarrow> error + (bytes \<times> KeysBTC)" where
  "get_public_key k compressed =
     (case public_key k of
        Some pk \<Rightarrow> Inr (pk, k)
      | None \<Rightarrow>
          (case get_public_point k of
             Inl e \<Rightarrow> Inl e
           | Inr (q, k') \<Rightarrow>
               (case point_to_publickey q compressed of
                  Inl e \<Rightarrow> Inl e
                | Inr pk \<Rightarrow> Inr (pk, k'\<lparr>public_key := Some pk\<rparr>))))"

text \<open>
  \<^verbatim>\<open>privatekey_to_wif\<close>: \<^verbatim>\<open>base58_encode\<close> raises nothing, so the \<^verbatim>\<open>except\<close> branch is
  never taken.
\<close>

definition privatekey_to_wif :: "hashlib \<Rightarrow> bytes \<Rightarrow> bool \<Rightarrow> error + string" where
  "privatekey_to_wif L pk compressed =
     (let compressed_flag = (if compressed then [0x01] else []);
          wif = [0x80] @ pk @ compressed_flag;
          double_sha = sha256 L (sha256 L wif)
      in Inr (base58_encode (wif @ take 4 double_sha)))"

text \<open>
  \<^verbatim>\<open>privatekey_from_wif\<close>: every exception of the decoding is turned into a
  \<^verbatim>\<open>ValueError\<close>; the slice \<^verbatim>\<open>p[1:33]\<close> raises nothing.
\<close>

definition privatekey_from_wif :: "string \<Rightarrow> error + bytes" where
  "privatekey_from_wif wif =
     (case base58_decode wif (Some 38) of
        Inl e \<Rightarrow> Inl (ValueError (InvalidPrivateKeyWIF wif))
      | Inr p \<Rightarrow> Inr (take 32 (drop 1 p)))"

section \<open>randoms.py: RFC 6979\<close>

text \<open>\<^verbatim>\<open>int.bit_length()\<close>\<close>

function bit_length :: "int \<Rightarrow> nat" where
  "bit_length i = (if i = 0 then 0 else Suc (bit_length (\<bar>i\<bar> div 2)))"
  by pat_completeness auto
termination
  by (relation "measure (\<lambda>i. nat \<bar>i\<bar>)") auto

text \<open>The local functions of \<^verbatim>\<open>random_rfc6979\<close>, with \<open>q\<close>, \<open>qlen\<close> and \<open>rlen\<close> passed on.\<close>

definition bits2int :: "nat \<Rightarrow> bytes \<Rightarrow> int" where
  "bits2int qlen b =
     (let blen = length b * 8; num = bytes2int b
      in if qlen < blen then num div 2 ^ (blen - qlen) else num)"

definition int2octets :: "nat \<Rightarrow> int \<Rightarrow> error + bytes" where
  "int2octets rlen i = int2bytes_len i (Some (rlen div 8))"

definition bits2octets :: "int \<Rightarrow> nat \<Rightarrow> nat \<Rightarrow> bytes \<Rightarrow> error + bytes" where
  "bits2octets q qlen rlen b =
     (let z1 = bits2int qlen b
      in if q = 0 then Inl ZeroDivisionError
         else (case int2octets rlen (z1 mod q) of
                 Inl e \<Rightarrow> Inl e
               | Inr bits \<Rightarrow> Inr (replicate (rlen div 8 - length bits) 0x00 @ bits)))"

definition test_suitable :: "ECPoint option \<Rightarrow> int \<Rightarrow> error + bool" where
  "test_suitable curve_gen_point k =
     (case curve_gen_point of
        None \<Rightarrow> Inr True
      | Some g \<Rightarrow>
          (case ec_times g k of Inl e \<Rightarrow> Inl e | Inr C \<Rightarrow> Inr (ec_x C \<noteq> 0)))"

text \<open>
  The inner loop of step h: \<open>v\<close> is hashed and appended to \<open>t\<close> until \<open>t\<close> has \<open>qlen\<close>
  bits.  Nothing bounds the number of rounds when the digest is empty, so not returning
  is the value \<open>None\<close>.
\<close>

partial_function (option) rfc6979_fill ::
  "hashlib \<Rightarrow> string \<Rightarrow> nat \<Rightarrow> bytes \<Rightarrow> bytes \<Rightarrow> bytes \<Rightarrow> (error + bytes \<times> bytes) option" where
  "rfc6979_fill L ty qlen k v t =
     (if length t * 8 < qlen then
        (case hmac_sha L k v ty of
           Inl e \<Rightarrow> Some (Inl e)
         | Inr v' \<Rightarrow> rfc6979_fill L ty qlen k v' (t @ v'))
      else Some (Inr (v, t)))"

text \<open>The outer \<^verbatim>\<open>while True\<close> loop of step h: it ends only with a suitable candidate.\<close>

partial_function (option) rfc6979_loop ::
  "hashlib \<Rightarrow> string \<Rightarrow> ECPoint option \<Rightarrow> int \<Rightarrow> nat \<Rightarrow> bytes \<Rightarrow> bytes \<Rightarrow> (error + int) option" where
  "rfc6979_loop L ty curve_gen_point q qlen k v =
     (case rfc6979_fill L ty qlen k v [] of
        None \<Rightarrow> None
      | Some (Inl e) \<Rightarrow> Some (Inl e)
      | Some (Inr (v1, t)) \<Rightarrow>
          (let kk = bits2int qlen t
           in case (if 1 \<le> kk \<and> kk < q then test_suitable curve_gen_point kk
                    else Inr False) of
                Inl e \<Rightarrow> Some (Inl e)
              | Inr ok \<Rightarrow>
                  if ok then Some (Inr kk)
                  else (case hmac_sha L k (v1 @ [0x00]) ty of
                          Inl e \<Rightarrow> Some (Inl e)
                        | Inr k' \<Rightarrow>
                            (case hmac_sha L k' v1 ty of
                               Inl e \<Rightarrow> Some (Inl e)
                             | Inr v' \<Rightarrow>
                                 rfc6979_loop L ty curve_gen_point q qlen k' v'))))"

text \<open>
  Steps a to g.  \<^verbatim>\<open>ceil(qlen / 8)\<close> is \<open>(qlen + 7) div 8\<close>.  The octets of \<open>x\<close> are
  computed before those of the digest, as Python evaluates the operands of \<^verbatim>\<open>+\<close>.
\<close>

definition rfc6979_seed :: "int \<Rightarrow> nat \<Rightarrow> nat \<Rightarrow> int \<Rightarrow> bytes \<Rightarrow> error + bytes" where
  "rfc6979_seed q qlen rlen x h1 =
     (case int2octets rlen x of
        Inl e \<Rightarrow> Inl e
      | Inr xo \<Rightarrow>
          (case bits2octets q qlen rlen h1 of
             Inl e \<Rightarrow> Inl e
           | Inr ho \<Rightarrow> Inr (xo @ ho)))"

definition random_rfc6979 ::
  "hashlib \<Rightarrow> bytes \<Rightarrow> int \<Rightarrow> int \<Rightarrow> ECPoint option \<Rightarrow> string \<Rightarrow> (error + int) option" where
  "random_rfc6979 L msg x q curve_gen_point ty =
     (let qlen = bit_length q; rlen = 8 * ((qlen + 7) div 8)
      in case sha L msg ty of
           Inl e \<Rightarrow> Some (Inl e)
         | Inr h1 \<Rightarrow>
             (let hlen = length h1;
                  v0 = replicate hlen 0x01;
                  k0 = replicate hlen 0x00
              in case rfc6979_seed q qlen rlen x h1 of
                   Inl e \<Rightarrow> Some (Inl e)
                 | Inr sd \<Rightarrow>
                     (case hmac_sha L k0 (v0 @ [0x00] @ sd) ty of
                        Inl e \<Rightarrow> Some (Inl e)
                      | Inr k1 \<Rightarrow>
                     (case hmac_sha L k1 v0 ty of
                        Inl e \<Rightarrow> Some (Inl e)
                      | Inr v1 \<Rightarrow>
                     (case hmac_sha L k1 (v1 @ [0x01] @ sd) ty of
                        Inl e \<Rightarrow> Some (Inl e)
                      | Inr k2 \<Rightarrow>
                     (case hmac_sha L k2 v1 ty of
                        Inl e \<Rightarrow> Some (Inl e)
                      | Inr v2 \<Rightarrow>
                          rfc6979_loop L ty curve_gen_point q qlen k2 v2))))))"

section \<open>keys.py: signatures\<close>

text \<open>
  \<^verbatim>\<open>sign\<close>: the generator point is built as an argument before the nonce is drawn.
  Not returning (the nonce loop) is \<open>None\<close>.
\<close>

definition sign :: "hashlib \<Rightarrow> KeysBTC \<Rightarrow> bytes \<Rightarrow> (error + bytes \<times> bytes) option" where
  "sign L self hash =
     (let private_key_int = get_private_key_int self;
          N = SECP256K1_ORDER;
          h0 = bytes2int hash mod N;
          h = (if h0 = 0 then 1 else h0)
      in case get_generator_point of
           Inl e \<Rightarrow> Some (Inl e)
         | Inr g \<Rightarrow>
             (case random_rfc6979 L hash private_key_int N (Some g) ''256'' of
                None \<Rightarrow> None
              | Some (Inl e) \<Rightarrow> Some (Inl e)
              | Some (Inr k) \<Rightarrow>
                  (case get_generator_point of
                     Inl e \<Rightarrow> Some (Inl e)
                   | Inr g' \<Rightarrow>
                  (case ec_times g' k of
                     Inl e \<Rightarrow> Some (Inl e)
                   | Inr C \<Rightarrow>
                  (case mod_inverse k N of
                     Inl e \<Rightarrow> Some (Inl e)
                   | Inr kinv \<Rightarrow>
                       (let s = ((h + ec_x C * private_key_int) * kinv) mod N
                        in case int2bytes (ec_x C) of
                             Inl e \<Rightarrow> Some (Inl e)
                           | Inr rb \<Rightarrow>
                               (case int2bytes s of
                                  Inl e \<Rightarrow> Some (Inl e)
                                | Inr sb \<Rightarrow> Some (Inr (rb, sb)))))))))"

text \<open>
  \<^verbatim>\<open>verify\<close> returns the answer and the object, whose cached public point
  \<^verbatim>\<open>get_public_point\<close> may have filled.
\<close>

definition verify :: "KeysBTC \<Rightarrow> bytes \<Rightarrow> bytes \<Rightarrow> bytes \<Rightarrow> error + (bool \<times> KeysBTC)" where
  "verify self hash r s =
     (let N = SECP256K1_ORDER;
          h0 = bytes2int hash mod N;
          h = (if h0 = 0 then 1 else h0);
          r1 = bytes2int r
      in case mod_inverse (bytes2int s) N of
           Inl e \<Rightarrow> Inl e
         | Inr s_inv \<Rightarrow>
             (let u1 = (h * s_inv) mod N; u2 = (r1 * s_inv) mod N
              in case get_generator_point of
                   Inl e \<Rightarrow> Inl e
                 | Inr g \<Rightarrow>
                (case ec_times g u1 of
                   Inl e \<Rightarrow> Inl e
                 | Inr gu \<Rightarrow>
                (case get_public_point self of
                   Inl e \<Rightarrow> Inl e
                 | Inr (q, self') \<Rightarrow>
                (case ec_times q u2 of
                   Inl e \<Rightarrow> Inl e
                 | Inr qu \<Rightarrow>
                (case ec_plus gu qu of
                   Inl e \<Rightarrow> Inl e
                 | Inr C \<Rightarrow> Inr (ec_x C = r1, self')))))))"

section \<open>bip32.py\<close>

definition MAINNET_PUBLIC :: bytes where "MAINNET_PUBLIC = [0x04, 0x88, 0xb2, 0x1e]"
definition MAINNET_PRIVATE :: bytes where "MAINNET_PRIVATE = [0x04, 0x88, 0xad, 0xe4]"

text \<open>
  The attribute \<^verbatim>\<open>key\<close> of an \<^verbatim>\<open>ExtendedKey\<close> is bytes (a private key) or an
  \<^verbatim>\<open>ECPoint\<close> (a public key); \<^verbatim>\<open>is_private\<close> and \<^verbatim>\<open>is_public\<close> test which.
\<close>

datatype key_material = PrivateBytes bytes | PublicPoint ECPoint

record ExtendedKey =
  key :: key_material
  chain_code :: bytes
  level :: int
  index :: int
  fingerprint :: bytes

definition serialize :: "hashlib \<Rightarrow> ExtendedKey \<Rightarrow> error + string" where
  "serialize L self =
     (case int2bytes_len (level self) (Some 1) of
        Inl e \<Rightarrow> Inl e
      | Inr lv \<Rightarrow>
     (case int2bytes_len (index self) (Some 4) of
        Inl e \<Rightarrow> Inl e
      | Inr ix \<Rightarrow>
     (case (case key self of
              PrivateBytes k \<Rightarrow>
                Inr (MAINNET_PRIVATE @ lv @ fingerprint self @ ix @ chain_code self
                       @ [0x00] @ k)
            | PublicPoint q \<Rightarrow>
                (case point_to_publickey q True of
                   Inl e \<Rightarrow> Inl e
                 | Inr pk \<Rightarrow>
                     Inr (MAINNET_PUBLIC @ lv @ fingerprint self @ ix @ chain_code self
                            @ pk))) of
        Inl e \<Rightarrow> Inl e
      | Inr ser_key \<Rightarrow>
          (let checksum = take 4 (sha256 L (sha256 L ser_key))
           in Inr (base58_encode (ser_key @ checksum))))))"

text \<open>
  \<^verbatim>\<open>deserialize\<close> overwrites the attributes of the object; the result is the object
  afterwards.  The decoded string has exactly 82 bytes, so no index or slice is out of
  range.
\<close>

definition deserialize :: "hashlib \<Rightarrow> ExtendedKey \<Rightarrow> string \<Rightarrow> error + ExtendedKey" where
  "deserialize L self ser =
     (case base58_decode ser (Some 82) of
        Inl e \<Rightarrow> Inl e
      | Inr ser_key \<Rightarrow>
          if take 4 (sha256 L (sha256 L (take 78 ser_key))) \<noteq> drop 78 ser_key
          then Inl (ValueError (WrongChecksum ser_key))
          else
            (let self1 = self\<lparr>level := uint (ser_key ! 4),
                               fingerprint := take 4 (drop 5 ser_key),
                               index := bytes2int (take 4 (drop 9 ser_key)),
                               chain_code := take 32 (drop 13 ser_key)\<rparr>
             in if take 4 ser_key = MAINNET_PRIVATE
                then Inr (self1\<lparr>key := PrivateBytes (take 32 (drop 46 ser_key))\<rparr>)
                else if take 4 ser_key = MAINNET_PUBLIC
                then
                  (let x = bytes2int (take 32 (drop 46 ser_key))
                   in case get_secp256k1_y x of
                        Inl e \<Rightarrow> Inl e
                      | Inr y0 \<Rightarrow>
                          (let y = (if ser_key ! 45 = 2
                                    then (if y0 mod 2 \<noteq> 0 then SECP256K1_P - y0 else y0)
                                    else (if y0 mod 2 = 0 then SECP256K1_P - y0 else y0))
                           in case new_ECPoint x y SECP256K1_A SECP256K1_B SECP256K1_P of
                                Inl e \<Rightarrow> Inl e
                              | Inr q \<Rightarrow> Inr (self1\<lparr>key := PublicPoint q\<rparr>)))
                else Inl (ValueError (InvalidSerialized ser_key))))"

definition get_fingerprint :: "hashlib \<Rightarrow> bytes \<Rightarrow> bytes" where
  "get_fingerprint L pk = take 4 (ripemd160 L (sha256 L pk))"

text \<open>
  Everywhere in \<^verbatim>\<open>bip32.py\<close> a \<^verbatim>\<open>KeysBTC\<close> object is built, asked and dropped; the
  public key of a fresh object:
\<close>

definition fresh_public_key :: "KeysBTC \<Rightarrow> error + bytes" where
  "fresh_public_key k =
     (case get_public_key k True of Inl e \<Rightarrow> Inl e | Inr (pk, k') \<Rightarrow> Inr pk)"

text \<open>
  \<^verbatim>\<open>prv_to_child\<close>.  A parent whose key is a point fails in \<^verbatim>\<open>bytes2int\<close> with a
  \<^verbatim>\<open>TypeError\<close>.  The second call of \<^verbatim>\<open>get_public_key\<close> reads the cache when the
  index is not hardened and computes the key when it is.
\<close>

definition prv_to_child :: "hashlib \<Rightarrow> ExtendedKey \<Rightarrow> int \<Rightarrow> error + ExtendedKey" where
  "prv_to_child L parent_prv idx =
     (case key parent_prv of
        PublicPoint q \<Rightarrow> Inl TypeError
      | PrivateBytes kb \<Rightarrow>
     (case new_KeysBTC kb of
        Inl e \<Rightarrow> Inl e
      | Inr cur_key \<Rightarrow>
     (case int2bytes_len idx (Some 4) of
        Inl e \<Rightarrow> Inl e
      | Inr ser32_index \<Rightarrow>
     (case (if idx \<ge> 2 ^ 31 then Inr ([0x00] @ private_key cur_key @ ser32_index)
            else (case fresh_public_key cur_key of
                    Inl e \<Rightarrow> Inl e
                  | Inr pk \<Rightarrow> Inr (pk @ ser32_index))) of
        Inl e \<Rightarrow> Inl e
      | Inr data \<Rightarrow>
          (let child_hash = hmac_sha512 L (chain_code parent_prv) data;
               child_hash_left = bytes2int (take 32 child_hash);
               k_i = (child_hash_left + get_private_key_int cur_key) mod SECP256K1_ORDER
           in if child_hash_left \<ge> SECP256K1_ORDER \<or> k_i = 0
              then Inl (ValueError InvalidChildKey)
              else (case int2bytes k_i of
                      Inl e \<Rightarrow> Inl e
                    | Inr kb' \<Rightarrow>
                        (case fresh_public_key cur_key of
                           Inl e \<Rightarrow> Inl e
                         | Inr pk \<Rightarrow>
                             Inr \<lparr>key = PrivateBytes kb',
                                  chain_code = drop 32 child_hash,
                                  level = level parent_prv + 1,
                                  index = idx,
                                  fingerprint = get_fingerprint L pk\<rparr>)))))))"

text \<open>
  \<^verbatim>\<open>pub_to_child\<close>.  The hardened index is refused before anything else is read.  A
  parent whose key is bytes has no attribute \<^verbatim>\<open>y\<close>.
\<close>

definition pub_to_child :: "hashlib \<Rightarrow> ExtendedKey \<Rightarrow> int \<Rightarrow> error + ExtendedKey" where
  "pub_to_child L parent_pub idx =
     (if idx \<ge> 2 ^ 31 then Inl (ValueError HardenedKey)
      else
     (case int2bytes_len idx (Some 4) of
        Inl e \<Rightarrow> Inl e
      | Inr ser32_index \<Rightarrow>
     (case key parent_pub of
        PrivateBytes kb \<Rightarrow> Inl AttributeError
      | PublicPoint q \<Rightarrow>
     (case point_to_publickey q True of
        Inl e \<Rightarrow> Inl e
      | Inr pk \<Rightarrow>
          (let data = pk @ ser32_index;
               child_hash = hmac_sha512 L (chain_code parent_pub) data;
               child_hash_left = bytes2int (take 32 child_hash)
           in case get_generator_point of
                Inl e \<Rightarrow> Inl e
              | Inr g \<Rightarrow>
             (case ec_times g child_hash_left of
                Inl e \<Rightarrow> Inl e
              | Inr gk \<Rightarrow>
             (case ec_plus gk q of
                Inl e \<Rightarrow> Inl e
              | Inr K_i \<Rightarrow>
                  if child_hash_left \<ge> SECP256K1_ORDER \<or> ec_eq K_i infinity
                  then Inl (ValueError (InvalidChildKeyIndex idx))
                  else Inr \<lparr>key = PublicPoint K_i,
                            chain_code = drop 32 child_hash,
                            level = level parent_pub + 1,
                            index = idx,
                            fingerprint = get_fingerprint L pk\<rparr>)))))))"

text \<open>
  A value held in \<^verbatim>\<open>keys_path\<close>, and by \<open>parent_prv\<close> and \<open>parent_pub\<close> in the loop
  of \<^verbatim>\<open>build_keys_path\<close>: \<^verbatim>\<open>None\<close>, an extended key, or the string of an exception.
\<close>

datatype slot = NoneV | KeyV ExtendedKey | StrV message

text \<open>
  The two \<^verbatim>\<open>try\<close> statements of the loop.  Only a \<^verbatim>\<open>ValueError\<close> is caught, and its
  message is kept.  A string has no attribute \<^verbatim>\<open>key\<close>; \<^verbatim>\<open>prv_to_child\<close> reads it at
  once, \<^verbatim>\<open>pub_to_child\<close> after the test of the index and \<^verbatim>\<open>int2bytes\<close>.
\<close>

definition try_prv_to_child :: "hashlib \<Rightarrow> slot \<Rightarrow> int \<Rightarrow> error + slot" where
  "try_prv_to_child L parent_prv idx =
     (case parent_prv of
        NoneV \<Rightarrow> Inr NoneV
      | _ \<Rightarrow>
          (case (case parent_prv of
                   KeyV k \<Rightarrow> prv_to_child L k idx
                 | _ \<Rightarrow> Inl AttributeError) of
             Inr child \<Rightarrow> Inr (KeyV child)
           | Inl (ValueError m) \<Rightarrow> Inr (StrV m)
           | Inl e \<Rightarrow> Inl e))"

definition try_pub_to_child :: "hashlib \<Rightarrow> slot \<Rightarrow> int \<Rightarrow> error + slot" where
  "try_pub_to_child L parent_pub idx =
     (case parent_pub of
        NoneV \<Rightarrow> Inr NoneV
      | _ \<Rightarrow>
          (case (case parent_pub of
                   KeyV k \<Rightarrow> pub_to_child L k idx
                 | _ \<Rightarrow>
                     (if idx \<ge> 2 ^ 31 then Inl (ValueError HardenedKey)
                      else (case int2bytes_len idx (Some 4) of
                              Inl e \<Rightarrow> Inl e
                            | Inr ser32_index \<Rightarrow> Inl AttributeError))) of
             Inr child \<Rightarrow> Inr (KeyV child)
           | Inl (ValueError m) \<Rightarrow> Inr (StrV m)
           | Inl e \<Rightarrow> Inl e))"

text \<open>An object of class \<^verbatim>\<open>BIP32\<close>; \<open>keys_path\<close> pairs the private and the public slot.\<close>

record BIP32 =
  level_indexes :: "int list"
  master_prv :: "ExtendedKey option"
  master_pub :: ExtendedKey
  keys_path :: "(slot \<times> slot) list"

definition new_BIP32 :: "ExtendedKey \<Rightarrow> int list option \<Rightarrow> error + BIP32" where
  "new_BIP32 master lv =
     (let lis = (case lv of None \<Rightarrow> [] | Some l \<Rightarrow> l)
      in case key master of
           PrivateBytes kb \<Rightarrow>
             (case new_KeysBTC kb of
                Inl e \<Rightarrow> Inl e
              | Inr k \<Rightarrow>
                  (case get_public_point k of
                     Inl e \<Rightarrow> Inl e
                   | Inr (q, k') \<Rightarrow>
                       Inr \<lparr>level_indexes = lis, master_prv = Some master,
                            master_pub = \<lparr>key = PublicPoint q,
                                           chain_code = chain_code master,
                                           level = 0, index = 0,
                                           fingerprint = [0x00, 0x00, 0x00, 0x00]\<rparr>,
                            keys_path = []\<rparr>))
         | PublicPoint q \<Rightarrow>
             Inr \<lparr>level_indexes = lis, master_prv = None, master_pub = master,
                  keys_path = []\<rparr>)"

text \<open>The \<^verbatim>\<open>for level in range(...)\<close> loop: one pair is appended per index.\<close>

fun build_keys_loop ::
  "hashlib \<Rightarrow> int list \<Rightarrow> slot \<Rightarrow> slot \<Rightarrow> (slot \<times> slot) list \<Rightarrow> error + (slot \<times> slot) list" where
  "build_keys_loop L [] parent_prv parent_pub path = Inr path"
| "build_keys_loop L (idx # rest) parent_prv parent_pub path =
     (case try_prv_to_child L parent_prv idx of
        Inl e \<Rightarrow> Inl e
      | Inr prv' \<Rightarrow>
          (case try_pub_to_child L parent_pub idx of
             Inl e \<Rightarrow> Inl e
           | Inr pub' \<Rightarrow> build_keys_loop L rest prv' pub' (path @ [(prv', pub')])))"

text \<open>
  \<^verbatim>\<open>build_keys_path\<close>: an empty or missing argument keeps the stored indexes.  The
  indexes are integers by their type, so the test \<^verbatim>\<open>isinstance(index, int)\<close> holds.
\<close>

definition build_keys_path :: "hashlib \<Rightarrow> BIP32 \<Rightarrow> int list option \<Rightarrow> error + BIP32" where
  "build_keys_path L self lv =
     (let lis = (case lv of None \<Rightarrow> level_indexes self
                 | Some l \<Rightarrow> if l = [] then level_indexes self else l);
          parent_prv = (case master_prv self of None \<Rightarrow> NoneV | Some k \<Rightarrow> KeyV k);
          parent_pub = KeyV (master_pub self)
      in case build_keys_loop L lis parent_prv parent_pub [(parent_prv, parent_pub)] of
           Inl e \<Rightarrow> Inl e
         | Inr path \<Rightarrow> Inr (self\<lparr>level_indexes := lis, keys_path := path\<rparr>))"

section \<open>Auxiliary notions for the proofs\<close>

text \<open>The value of a Base58 digit and of a digit string, least significant digit first.\<close>

definition b58_digit :: "char \<Rightarrow> int" where
  "b58_digit c = (case str_index BASE58_ALPHABET c of Some i \<Rightarrow> int i | None \<Rightarrow> 0)"

fun b58_le :: "string \<Rightarrow> int" where
  "b58_le [] = 0"
| "b58_le (c # cs) = b58_digit c + 58 * b58_le cs"

text \<open>The private key of \<^verbatim>\<open>test_keysbtc.py\<close>, \<^verbatim>\<open>96a69d66...c77ec374\<close>.\<close>

definition wif_key :: bytes where
  "wif_key = [150, 166, 157, 102, 130, 164, 178, 235, 82, 46, 137, 108, 47, 161, 184, 173,
              164, 133, 196, 114, 185, 131, 226, 114, 102, 209, 213, 200, 199, 126, 195, 116]"

text \<open>
  A valid point of secp256k1: the default curve parameters, and either the pair
  \<open>(0, 0)\<close> that stands for the point at infinity or coordinates on the curve.
\<close>

definition valid_point :: "ECPoint \<Rightarrow> bool" where
  "valid_point p \<longleftrightarrow>
     ec_a p = SECP256K1_A \<and> ec_b p = SECP256K1_B \<and> ec_mod p = SECP256K1_P \<and>
     (ec_eq p infinity \<or>
      is_contained (ec_x p) (ec_y p) SECP256K1_A SECP256K1_B SECP256K1_P = Inr True)"

text \<open>Twice and three times the generator point.\<close>

definition G2 :: ECPoint where
  "G2 = \<lparr>ec_x = 0xc6047f9441ed7d6d3045406e95c07cd85c778e4b8cef3ca7abac09b95c709ee5,
          ec_y = 0x1ae168fea63dc339a3c58419466ceaeef7f632653266d0e1236431a950cfe52a,
          ec_a = SECP256K1_A, ec_b = SECP256K1_B, ec_mod = SECP256K1_P\<rparr>"

definition G3 :: ECPoint where
  "G3 = \<lparr>ec_x = 0xf9308a019258c31049344f85f89d5229b531c845836f99b08601f113bce036f9,
          ec_y = 0x388f7b0f632de8140fe337e62a37f3566500a99934c2231b6cb9fd7584b8e672,
          ec_a = SECP256K1_A, ec_b = SECP256K1_B, ec_mod = SECP256K1_P\<rparr>"

section \<open>Properties\<close>

subsection \<open>Modular inverse\<close>

declare egcd.simps [simp del]
declare multiply_loop.simps [simp del]
declare byte_length.simps [simp del]

lemma egcd_bezout: "egcd a b = (g, x, y) \<Longrightarrow> a * x + b * y = g"
proof (induction a b arbitrary: g x y rule: egcd.induct)
  case (1 a b)
  show ?case
  proof (cases "a = 0")
    case True
    with "1.prems" show ?thesis by (simp add: egcd.simps [of 0 b])
  next
    case False
    obtain g' y' x' where r: "egcd (b mod a) a = (g', y', x')"
      by (cases "egcd (b mod a) a") auto
    from "1.IH" [OF False r] have ih: "(b mod a) * y' + a * x' = g'" .
    from "1.prems" False r have e: "g = g'" "x = x' - y' * (b div a)" "y = y'"
      by (auto simp add: egcd.simps [of a b])
    have "b = a * (b div a) + b mod a" by simp
    then have "a * x + b * y = a * x' + (b - a * (b div a)) * y'"
      unfolding e by (simp add: algebra_simps)
    also have "\<dots> = g'" using ih by (simp add: algebra_simps minus_mult_div_eq_mod)
    finally show ?thesis using e by simp
  qed
qed

lemma egcd_gcd: "0 \<le> a \<Longrightarrow> 0 \<le> b \<Longrightarrow> fst (egcd a b) = gcd a b"
proof (induction a b rule: egcd.induct)
  case (1 a b)
  show ?case
  proof (cases "a = 0")
    case True
    with "1.prems" show ?thesis by (simp add: egcd.simps [of 0 b])
  next
    case False
    with "1.prems" have pos: "0 < a" by simp
    then have "0 \<le> b mod a" by simp
    from "1.IH" [OF False this] "1.prems" have "fst (egcd (b mod a) a) = gcd (b mod a) a" by simp
    moreover have "gcd (b mod a) a = gcd a b" by (metis gcd.commute gcd_red_int)
    moreover obtain g' y' x' where r: "egcd (b mod a) a = (g', y', x')"
      by (cases "egcd (b mod a) a") auto
    ultimately show ?thesis using False
      by (simp add: egcd.simps [of a b])
  qed
qed

lemma mod_inverse_Inr_D:
  assumes "mod_inverse a m = Inr i"
  shows "(a * i) mod m = 1 mod m" and "m \<noteq> 0" and "i = i mod m"
proof -
  obtain g x y where e: "egcd a m = (g, x, y)" by (cases "egcd a m") auto
  from assms e have g: "g = 1" and m: "m \<noteq> 0" and i: "i = x mod m"
    by (auto simp: mod_inverse_def split: if_splits)
  from egcd_bezout [OF e] g have "a * x = 1 - m * y" by simp
  then have "(a * x) mod m = 1 mod m" by (simp add: mod_diff_eq [symmetric] del: mod_diff_eq)
  then show "(a * i) mod m = 1 mod m" unfolding i by (simp add: mod_mult_right_eq)
  show "m \<noteq> 0" by fact
  show "i = i mod m" unfolding i by simp
qed

lemma mod_inverse_coprime:
  assumes "0 \<le> a" "0 < m" "coprime a m"
  shows "\<exists>i. mod_inverse a m = Inr i"
proof -
  obtain g x y where e: "egcd a m = (g, x, y)" by (cases "egcd a m") auto
  from egcd_gcd [of a m] assms e have "g = 1" by simp
  with e assms show ?thesis by (simp add: mod_inverse_def)
qed

lemma mod_inverse_not_coprime:
  assumes "0 \<le> a" "0 \<le> m" "\<not> coprime a m"
  shows "mod_inverse a m = Inl (ValueError (NoModularInverse a m))"
proof -
  obtain g x y where e: "egcd a m = (g, x, y)" by (cases "egcd a m") auto
  from egcd_gcd [of a m] assms e have "g \<noteq> 1" by (auto simp: coprime_iff_gcd_eq_1)
  with e show ?thesis by (simp add: mod_inverse_def)
qed

lemma mod_inverse_eqI:
  assumes a: "0 \<le> a" and m: "1 < m" and i: "0 \<le> i" "i < m" and ai: "(a * i) mod m = 1"
  shows "mod_inverse a m = Inr i"
proof -
  from ai obtain k where k: "a * i = 1 + m * k"
    by (metis mult_div_mod_eq add.commute)
  have "coprime a m"
  proof (rule coprimeI)
    fix c assume "c dvd a" "c dvd m"
    then have "c dvd a * i - m * k" by (simp add: dvd_diff)
    then show "is_unit c" using k by simp
  qed
  from mod_inverse_coprime [OF a _ this] m obtain j where j: "mod_inverse a m = Inr j" by auto
  from mod_inverse_Inr_D [OF j] m have aj: "(a * j) mod m = 1" and jm: "j = j mod m" by simp_all
  have "i mod m = (i * (a * j)) mod m"
    using aj by (metis mod_mult_right_eq mult.right_neutral)
  also have "\<dots> = ((a * i) * j) mod m" by (simp add: mult_ac)
  also have "\<dots> = j mod m" using ai by (metis mod_mult_left_eq mult.left_neutral)
  finally have "i mod m = j mod m" .
  with i jm have "i = j" by simp
  with j show ?thesis by simp
qed

subsection \<open>Integers and bytes\<close>

declare base58_encode_loop.simps [simp del]
declare bit_length.simps [simp del]

lemma bytes2int_Nil [simp]: "bytes2int [] = 0"
  by (simp add: bytes2int_def)

lemma bytes2int_snoc [simp]: "bytes2int (xs @ [x]) = bytes2int xs * 256 + uint x"
  by (simp add: bytes2int_def)

lemma bytes2int_nonneg [simp]: "0 \<le> bytes2int b"
  by (induction b rule: rev_induct) simp_all

lemma uint_byte_less: "uint (x :: byte) < 256"
  using uint_bounded [of x] by simp

lemma uint_byte_mod [simp]: "uint (x :: byte) mod 256 = uint x"
  using uint_byte_less [of x] by simp

lemma bytes2int_less: "bytes2int b < 256 ^ length b"
proof (induction b rule: rev_induct)
  case Nil
  show ?case by simp
next
  case (snoc x xs)
  have "bytes2int xs + 1 \<le> 256 ^ length xs" using snoc by simp
  then have "(bytes2int xs + 1) * 256 \<le> 256 ^ length xs * 256" by (rule mult_right_mono) simp
  with uint_byte_less [of x] show ?case by (simp add: algebra_simps)
qed

lemma bytes2int_append: "bytes2int (xs @ ys) = bytes2int xs * 256 ^ length ys + bytes2int ys"
proof (induction ys rule: rev_induct)
  case Nil
  show ?case by simp
next
  case (snoc y ys)
  have "bytes2int (xs @ ys @ [y]) = bytes2int ((xs @ ys) @ [y])" by simp
  also have "\<dots> = bytes2int (xs @ ys) * 256 + uint y" by (rule bytes2int_snoc)
  finally show ?case using snoc by (simp add: algebra_simps)
qed

lemma bytes2int_replicate_zero [simp]: "bytes2int (replicate k 0) = 0"
  by (induction k) (simp_all add: bytes2int_def)

lemma bytes2int_Cons: "bytes2int (x # xs) = uint x * 256 ^ length xs + bytes2int xs"
  using bytes2int_append [of "[x]" xs] bytes2int_snoc [of "[]" x] by simp

lemma length_to_bytes [simp]: "length (to_bytes n i) = n"
  by (induction n arbitrary: i) simp_all

lemma byte_of_int_mod: "uint (word_of_int (i mod 256) :: byte) = i mod 256"
  by (simp add: uint_word_of_int take_bit_eq_mod)

lemma bytes2int_to_bytes: "bytes2int (to_bytes n i) = i mod 256 ^ n"
proof (induction n arbitrary: i)
  case 0
  show ?case by simp
next
  case (Suc n)
  have "bytes2int (to_bytes (Suc n) i) = (i div 256) mod 256 ^ n * 256 + i mod 256"
    by (simp add: Suc byte_of_int_mod)
  also have "\<dots> = i mod 256 ^ Suc n"
    by (simp add: zmod_zmult2_eq mult.commute)
  finally show ?case .
qed

lemma to_bytes_bytes2int: "to_bytes (length b) (bytes2int b) = b"
proof (induction b rule: rev_induct)
  case Nil
  show ?case by simp
next
  case (snoc x xs)
  have d: "(bytes2int xs * 256 + uint x) div 256 = bytes2int xs"
    using uint_byte_less [of x] by simp
  have m: "(bytes2int xs * 256 + uint x) mod 256 = uint x"
    using uint_byte_less [of x] by simp
  show ?case by (simp add: d m snoc)
qed

lemma to_bytes_zero [simp]: "to_bytes n 0 = replicate n 0"
  by (induction n) (simp_all add: replicate_append_same)

lemma to_bytes_pad:
  "to_bytes (k + length b) (bytes2int b) = replicate k 0 @ b"
proof (induction b rule: rev_induct)
  case Nil
  show ?case by simp
next
  case (snoc x xs)
  have d: "(bytes2int xs * 256 + uint x) div 256 = bytes2int xs"
    using uint_byte_less [of x] by simp
  have m: "(bytes2int xs * 256 + uint x) mod 256 = uint x"
    using uint_byte_less [of x] by simp
  have "k + length (xs @ [x]) = Suc (k + length xs)" by simp
  then show ?case by (simp add: d m snoc del: length_append)
qed

lemma int2bytes_len_bytes2int:
  "length b \<le> n \<Longrightarrow> int2bytes_len (bytes2int b) (Some n) = Inr (replicate (n - length b) 0 @ b)"
proof -
  assume le: "length b \<le> n"
  have "bytes2int b < 256 ^ length b" by (rule bytes2int_less)
  also have "(256::int) ^ length b \<le> 256 ^ n" using le by (simp add: power_increasing)
  finally have lt: "bytes2int b < 256 ^ n" .
  from le have n: "n = (n - length b) + length b" by simp
  have "to_bytes n (bytes2int b) = replicate (n - length b) 0 @ b"
    by (subst n) (rule to_bytes_pad)
  with lt show ?thesis by (simp add: int2bytes_len_def not_less)
qed

subsection \<open>Base58\<close>

lemma BASE58_COUNT_eq [simp]: "BASE58_COUNT = 58"
  by (simp add: BASE58_COUNT_def BASE58_ALPHABET_def)

lemma length_BASE58_ALPHABET [simp]: "length BASE58_ALPHABET = 58"
  by (simp add: BASE58_ALPHABET_def)

lemma distinct_BASE58_ALPHABET: "distinct BASE58_ALPHABET"
  by (simp add: BASE58_ALPHABET_def)

lemma str_index_nth:
  "distinct xs \<Longrightarrow> i < length xs \<Longrightarrow> str_index xs (xs ! i) = Some i"
proof (induction xs arbitrary: i)
  case Nil
  then show ?case by simp
next
  case (Cons d ds)
  show ?case
  proof (cases i)
    case 0
    then show ?thesis by simp
  next
    case (Suc j)
    with Cons.prems have "j < length ds" "ds ! j \<in> set ds" "d \<notin> set ds" by auto
    with Cons.IH [of j] Cons.prems Suc show ?thesis by auto
  qed
qed

lemma str_index_Some_iff: "(\<exists>i. str_index xs c = Some i) \<longleftrightarrow> c \<in> set xs"
  by (induction xs) auto

lemma b58_digit_nth:
  "0 \<le> k \<Longrightarrow> k < 58 \<Longrightarrow> b58_digit (BASE58_ALPHABET ! nat k) = k"
  using str_index_nth [OF distinct_BASE58_ALPHABET, of "nat k"]
  by (simp add: b58_digit_def)

lemma nth_BASE58_ALPHABET_mem:
  "0 \<le> k \<Longrightarrow> k < 58 \<Longrightarrow> BASE58_ALPHABET ! nat k \<in> set BASE58_ALPHABET"
  by (rule nth_mem) simp

lemma base58_decode_loop_valid:
  "set cs \<subseteq> set BASE58_ALPHABET \<Longrightarrow>
   base58_decode_loop cs d m = Inr (d + m * b58_le cs)"
proof (induction cs arbitrary: d m)
  case Nil
  show ?case by simp
next
  case (Cons c cs)
  from Cons.prems have "c \<in> set BASE58_ALPHABET" by simp
  then obtain i where i: "str_index BASE58_ALPHABET c = Some i"
    using str_index_Some_iff by metis
  then have dg: "b58_digit c = int i" by (simp add: b58_digit_def)
  from Cons.prems have "set cs \<subseteq> set BASE58_ALPHABET" by simp
  from Cons.IH [OF this] i dg show ?case by (simp add: algebra_simps)
qed

lemma b58_le_snoc: "b58_le (cs @ [c]) = b58_le cs + 58 ^ length cs * b58_digit c"
  by (induction cs) (simp_all add: algebra_simps)

lemma base58_encode_loop_value:
  "0 \<le> num \<Longrightarrow> base58_encode_loop num enc = (n', e') \<Longrightarrow>
   0 \<le> n' \<and> n' < 58 \<and>
   (\<exists>ds. e' = ds @ enc \<and> set ds \<subseteq> set BASE58_ALPHABET \<and>
         n' * 58 ^ length ds + b58_le (rev ds) = num)"
proof (induction num enc arbitrary: n' e' rule: base58_encode_loop.induct)
  case (1 num enc)
  show ?case
  proof (cases "num \<ge> BASE58_COUNT")
    case False
    with "1.prems" have "n' = num" "e' = enc"
      by (simp_all add: base58_encode_loop.simps [of num enc])
    with False "1.prems" show ?thesis by simp
  next
    case True
    let ?c = "BASE58_ALPHABET ! nat (num mod BASE58_COUNT)"
    from True "1.prems" have r: "base58_encode_loop (num div BASE58_COUNT) (?c # enc) = (n', e')"
      by (simp add: base58_encode_loop.simps [of num enc])
    from "1.prems" have "0 \<le> num div BASE58_COUNT" by simp
    from "1.IH" [OF True this r] obtain ds where
      n: "0 \<le> n'" "n' < 58" and e: "e' = ds @ ?c # enc"
      and v: "set ds \<subseteq> set BASE58_ALPHABET"
      and s: "n' * 58 ^ length ds + b58_le (rev ds) = num div BASE58_COUNT"
      by auto
    have cm: "?c \<in> set BASE58_ALPHABET"
      unfolding BASE58_COUNT_eq by (rule nth_BASE58_ALPHABET_mem) simp_all
    have cd: "b58_digit (BASE58_ALPHABET ! nat (num mod 58)) = num mod 58"
      by (rule b58_digit_nth) simp_all
    have "n' * 58 ^ length (ds @ [?c]) + b58_le (rev (ds @ [?c]))
            = 58 * (n' * 58 ^ length ds + b58_le (rev ds)) + num mod 58"
      by (simp add: cd algebra_simps)
    also have "\<dots> = num" using s by simp
    finally have "n' * 58 ^ length (ds @ [?c]) + b58_le (rev (ds @ [?c])) = num" .
    moreover have "e' = (ds @ [?c]) @ enc" using e by simp
    moreover have "set (ds @ [?c]) \<subseteq> set BASE58_ALPHABET" using v cm by simp
    ultimately show ?thesis using n by blast
  qed
qed

lemma base58_encode_value:
  "set (base58_encode b) \<subseteq> set BASE58_ALPHABET \<and> b58_le (rev (base58_encode b)) = bytes2int b"
proof -
  obtain n' e' where r: "base58_encode_loop (bytes2int b) [] = (n', e')"
    by (cases "base58_encode_loop (bytes2int b) []") auto
  from base58_encode_loop_value [OF bytes2int_nonneg r]
  have n: "0 \<le> n'" "n' < 58" and v: "set e' \<subseteq> set BASE58_ALPHABET"
    and s: "n' * 58 ^ length e' + b58_le (rev e') = bytes2int b"
    by auto
  show ?thesis
  proof (cases "n' = 0")
    case True
    with r v s show ?thesis by (simp add: base58_encode_def)
  next
    case False
    have "b58_le (rev (BASE58_ALPHABET ! nat n' # e')) = b58_le (rev e') + 58 ^ length e' * n'"
      using b58_digit_nth [OF n] by (simp add: b58_le_snoc)
    with False r v s nth_BASE58_ALPHABET_mem [OF n] show ?thesis
      by (simp add: base58_encode_def algebra_simps)
  qed
qed

lemma base58_decode_loop_encode:
  "base58_decode_loop (rev (base58_encode b)) 0 1 = Inr (bytes2int b)"
  using base58_encode_value [of b]
    base58_decode_loop_valid [of "rev (base58_encode b)" 0 1]
  by simp

lemma base58_roundtrip_pad:
  "length b \<le> n \<Longrightarrow>
   base58_decode (base58_encode b) (Some n) = Inr (replicate (n - length b) 0 @ b)"
  by (simp add: base58_decode_def base58_decode_loop_encode int2bytes_len_bytes2int)

lemma base58_encode_leading_zeros:
  "base58_encode (replicate k 0 @ b) = base58_encode b"
  by (simp add: base58_encode_def bytes2int_append)

lemma byte_length_bounds:
  "256 ^ n \<le> i \<Longrightarrow> i < 256 ^ Suc n \<Longrightarrow> byte_length i = Suc n"
proof (induction n arbitrary: i)
  case 0
  then have "0 < i" "i div 256 = 0" by simp_all
  then show ?case by (simp add: byte_length.simps [of i] byte_length.simps [of 0])
next
  case (Suc n)
  have p: "(0::int) < 256 ^ Suc n" by simp
  from Suc.prems have "0 < i" using p by linarith
  have "(256::int) ^ Suc n div 256 \<le> i div 256"
    by (rule zdiv_mono1) (use Suc.prems in simp_all)
  then have "256 ^ n \<le> i div 256" by simp
  moreover have "i div 256 < 256 ^ Suc n"
  proof -
    have "i = 256 * (i div 256) + i mod 256" by simp
    moreover have "0 \<le> i mod 256" by simp
    moreover from Suc.prems have "i < 256 * 256 ^ Suc n" by simp
    ultimately have "256 * (i div 256) < 256 * 256 ^ Suc n" by linarith
    then show ?thesis by simp
  qed
  ultimately have "byte_length (i div 256) = Suc n" by (rule Suc.IH)
  with \<open>0 < i\<close> show ?case by (simp add: byte_length.simps [of i])
qed

lemma byte_length_stripped:
  assumes "b = [] \<or> hd b \<noteq> 0"
  shows "byte_length (bytes2int b) = length b"
proof (cases b)
  case Nil
  then show ?thesis by (simp add: byte_length.simps [of 0])
next
  case (Cons x xs)
  with assms have "x \<noteq> 0" by simp
  then have "uint x \<noteq> 0" by (simp add: uint_0_iff)
  with uint_nonnegative [of x] have "1 \<le> uint x" by linarith
  then have "1 * 256 ^ length xs \<le> uint x * 256 ^ length xs" by (intro mult_right_mono) simp_all
  then have "256 ^ length xs \<le> uint x * 256 ^ length xs" by simp
  with bytes2int_nonneg [of xs] have lo: "256 ^ length xs \<le> bytes2int (x # xs)"
    unfolding bytes2int_Cons by linarith
  have hi: "bytes2int (x # xs) < 256 ^ Suc (length xs)"
    using bytes2int_less [of "x # xs"] by simp
  from byte_length_bounds [OF lo hi] Cons show ?thesis by simp
qed

lemma bytes2int_dropWhile_zero:
  "bytes2int (dropWhile (\<lambda>x. x = 0) b) = bytes2int b"
  by (induction b) (simp_all add: bytes2int_Cons)

lemma base58_roundtrip_least:
  "base58_decode (base58_encode b) None = Inr (dropWhile (\<lambda>x. x = 0) b)"
proof -
  let ?s = "dropWhile (\<lambda>x. x = 0) b"
  have st: "?s = [] \<or> hd ?s \<noteq> 0" using hd_dropWhile [of "\<lambda>x. x = 0" b] by blast
  have bl: "byte_length (bytes2int b) = length ?s"
    using byte_length_stripped [OF st] by (simp add: bytes2int_dropWhile_zero)
  have "bytes2int b < 256 ^ length ?s"
    using bytes2int_less [of ?s] by (simp add: bytes2int_dropWhile_zero)
  moreover have "to_bytes (length ?s) (bytes2int b) = ?s"
    using to_bytes_bytes2int [of ?s] by (simp add: bytes2int_dropWhile_zero)
  ultimately show ?thesis
    by (simp add: base58_decode_def base58_decode_loop_encode int2bytes_len_def bl not_less)
qed

text \<open>
  Claim C10.  For every byte string \<open>b\<close>, the empty one and those with leading zero bytes
  included, decoding the Base58 encoding of \<open>b\<close> to \<open>length b\<close> bytes gives \<open>b\<close> back.
  The encoder writes the big-endian integer only: leading zero bytes do not change its
  output, and a decoder asked for the least length returns \<open>b\<close> without them; the
  requested length alone restores them.
\<close>

theorem base58_roundtrip:
  "base58_decode (base58_encode b) (Some (length b)) = Inr b
   \<and> base58_encode (replicate k 0 @ b) = base58_encode b
   \<and> base58_decode (base58_encode b) None = Inr (dropWhile (\<lambda>x. x = 0) b)"
  using base58_roundtrip_pad [of b "length b"] base58_encode_leading_zeros [of k b]
    base58_roundtrip_least [of b]
  by simp

subsection \<open>The generator point\<close>


lemma G_on_curve: "is_contained SECP256K1_GX SECP256K1_GY SECP256K1_A SECP256K1_B SECP256K1_P = Inr True"
  by (simp add: is_contained_def SECP256K1_GX_def SECP256K1_GY_def SECP256K1_A_def
      SECP256K1_B_def SECP256K1_P_def)

lemma get_generator_point_eq: "get_generator_point = Inr G"
  by (simp add: get_generator_point_def new_ECPoint_def G_on_curve G_def)

subsection \<open>Scalar multiplication by zero\<close>

lemma multiply_zero:
  "new_ECPoint (ec_x p) (ec_y p) (ec_a p) (ec_b p) (ec_mod p) = Inr t \<Longrightarrow> multiply p 0 = Inr t"
  by (simp add: multiply_def multiply_loop.simps)

text \<open>
  Claim C3.  \<^verbatim>\<open>multiply(P, 0)\<close> should be the point at infinity.  The loop starts from a
  copy of \<open>P\<close> and counts \<open>x - 1\<close> additions, so for \<open>x = 0\<close> it returns the copy: for
  the generator point the result is the generator point, which is not the point at
  infinity.
\<close>

theorem multiply_by_zero_returns_operand:
  "multiply G 0 = Inr G \<and> \<not> ec_eq G infinity"
proof -
  have "new_ECPoint (ec_x G) (ec_y G) (ec_a G) (ec_b G) (ec_mod G) = Inr G"
    using get_generator_point_eq by (simp add: get_generator_point_def G_def)
  then have "multiply G 0 = Inr G" by (rule multiply_zero)
  moreover have "\<not> ec_eq G infinity"
    by (simp add: ec_eq_def G_def infinity_def SECP256K1_GX_def)
  ultimately show ?thesis by simp
qed

subsection \<open>Private keys\<close>

lemma SECP256K1_ORDER_range: "0 < SECP256K1_ORDER" "SECP256K1_ORDER < 256 ^ 32"
  by (simp_all add: SECP256K1_ORDER_def)

lemma new_KeysBTC_positive:
  "0 < bytes2int pk \<Longrightarrow>
   new_KeysBTC pk = Inr \<lparr>private_key = pk, public_point = None, public_key = None,
                         public_key_hash = None, address = None\<rparr>"
  by (simp add: new_KeysBTC_def)

text \<open>
  Claim C7.  A private scalar must lie in \<open>[1, n)\<close>.  The constructor asserts only that
  the scalar is positive: zero is rejected, the curve order \<open>n\<close> itself (as 32 bytes) is
  accepted as a private key.
\<close>

theorem curve_order_accepted_as_private_key:
  "new_KeysBTC (to_bytes 32 0) = Inl (AssertionError InvalidPrivateKey)
   \<and> new_KeysBTC (to_bytes 32 SECP256K1_ORDER) =
       Inr \<lparr>private_key = to_bytes 32 SECP256K1_ORDER, public_point = None,
            public_key = None, public_key_hash = None, address = None\<rparr>
   \<and> get_private_key_int
         \<lparr>private_key = to_bytes 32 SECP256K1_ORDER, public_point = None,
          public_key = None, public_key_hash = None, address = None\<rparr> = SECP256K1_ORDER"
proof -
  have z: "bytes2int (to_bytes 32 0) = 0" by (simp add: bytes2int_to_bytes)
  have n: "bytes2int (to_bytes 32 SECP256K1_ORDER) = SECP256K1_ORDER"
    using SECP256K1_ORDER_range by (simp add: bytes2int_to_bytes)
  from z have "new_KeysBTC (to_bytes 32 0) = Inl (AssertionError InvalidPrivateKey)"
    unfolding new_KeysBTC_def by simp
  moreover from n SECP256K1_ORDER_range
  have "new_KeysBTC (to_bytes 32 SECP256K1_ORDER) =
       Inr \<lparr>private_key = to_bytes 32 SECP256K1_ORDER, public_point = None,
            public_key = None, public_key_hash = None, address = None\<rparr>"
    by (intro new_KeysBTC_positive) simp
  ultimately show ?thesis using n by (simp add: get_private_key_int_def)
qed

subsection \<open>Wallet import format\<close>

lemma privatekey_from_wif_any_checksum:
  "privatekey_from_wif (base58_encode ([0x80] @ to_bytes 32 d @ [0x01] @ to_bytes 4 c))
     = Inr (to_bytes 32 d)"
proof -
  let ?b = "[0x80] @ to_bytes 32 d @ [0x01] @ to_bytes 4 c"
  have "length ?b = 38" by simp
  then have "base58_decode (base58_encode ?b) (Some 38) = Inr ?b"
    using base58_roundtrip_pad [of ?b 38] by simp
  then show ?thesis by (simp add: privatekey_from_wif_def)
qed

text \<open>
  Claim C6.  A WIF string whose four checksum bytes do not match its payload should be
  refused.  \<^verbatim>\<open>privatekey_from_wif\<close> decodes the string and returns bytes 1 to 32 without
  reading the checksum.  The string below is the compressed WIF of the key of
  \<^verbatim>\<open>test_keysbtc.py\<close> with its last character changed: it carries the checksum
  \<^verbatim>\<open>6ca00147\<close>, the double SHA-256 of the payload begins \<^verbatim>\<open>6ca00146\<close>, and the key is
  returned all the same.
\<close>

theorem wif_wrong_checksum_accepted:
  "base58_decode ''L2GZE5A32VYtbzWtiZny9XzLQcK5XEu6PZdtvdGobJrF1ZjVQeGN'' (Some 38)
     = Inr ([0x80] @ wif_key @ [0x01] @ [0x6c, 0xa0, 0x01, 0x47])
   \<and> privatekey_from_wif ''L2GZE5A32VYtbzWtiZny9XzLQcK5XEu6PZdtvdGobJrF1ZjVQeGN''
     = Inr wif_key"
proof -
  have d: "base58_decode ''L2GZE5A32VYtbzWtiZny9XzLQcK5XEu6PZdtvdGobJrF1ZjVQeGN'' (Some 38)
     = Inr ([0x80] @ wif_key @ [0x01] @ [0x6c, 0xa0, 0x01, 0x47])"
    by code_simp
  have "length wif_key = 32" by (simp add: wif_key_def)
  with d show ?thesis by (simp add: privatekey_from_wif_def)
qed

subsection \<open>Closure of the point operations\<close>

lemma add_formula_dvd:
  fixes m :: int
  assumes "m dvd (y1^2 - (x1^3 + a * x1 + b))"
      and "m dvd (y2^2 - (x2^3 + a * x2 + b))"
      and "m dvd (dx - (x2 - x1))"
      and "m dvd (dy - (y2 - y1))"
      and "m dvd (dx * i - 1)"
      and "m dvd (s - dy * i)"
      and "m dvd (x3 - (s * s - x1 - x2))"
      and "m dvd (y3 - (s * (x1 - x3) - y1))"
  shows "m dvd (y3^2 - (x3^3 + a * x3 + b))"
  using assms by algebra

lemma double_core_dvd:
  fixes m :: int
  assumes "m dvd (y1^2 - (x1^3 + a * x1 + b))"
      and "m dvd (s * (2 * y1) - (3 * x1 * x1 + a))"
      and "m dvd (x3 - (s * s - x1 - x1))"
      and "m dvd (y3 - (s * (x1 - x3) - y1))"
  shows "m dvd (y3^2 - (x3^3 + a * x3 + b))"
  using assms by algebra

lemma double_slope_dvd:
  fixes m :: int
  assumes "m dvd (dy - (3 * x1 * x1 + a))"
      and "m dvd (dx - 2 * y1)"
      and "m dvd (dx * i - 1)"
      and "m dvd (s - dy * i)"
  shows "m dvd (s * (2 * y1) - (3 * x1 * x1 + a))"
  using assms by algebra

lemma SECP256K1_P_pos: "1 < SECP256K1_P"
  by (simp add: SECP256K1_P_def)

lemma mod_dvd_diff: "(m::int) dvd (a mod m - a)"
  by (metis dvd_minus_mod dvd_diff_commute)

lemma is_contained_dvd:
  "m \<noteq> 0 \<Longrightarrow> is_contained x y a b m = Inr True \<longleftrightarrow> m dvd (y^2 - (x^3 + a * x + b))"
  by (simp add: is_contained_def mod_eq_0_iff_dvd)

lemma valid_point_infinity: "valid_point infinity"
  by (simp add: valid_point_def infinity_def ec_eq_def)

lemma valid_pointD:
  assumes "valid_point p" "\<not> ec_eq p infinity"
  shows "SECP256K1_P dvd ((ec_y p)^2 - ((ec_x p)^3 + SECP256K1_A * ec_x p + SECP256K1_B))"
    and "ec_a p = SECP256K1_A" "ec_b p = SECP256K1_B" "ec_mod p = SECP256K1_P"
  using assms SECP256K1_P_pos by (auto simp: valid_point_def is_contained_dvd)

lemma valid_pointI:
  assumes "SECP256K1_P dvd (y^2 - (x^3 + SECP256K1_A * x + SECP256K1_B))"
  shows "valid_point \<lparr>ec_x = x, ec_y = y, ec_a = SECP256K1_A, ec_b = SECP256K1_B,
                       ec_mod = SECP256K1_P\<rparr>"
  using assms SECP256K1_P_pos by (simp add: valid_point_def is_contained_dvd)

lemma double_valid:
  assumes v: "valid_point p" and r: "double p = Inr q"
  shows "valid_point q"
proof (cases "ec_eq p infinity")
  case True
  with r show ?thesis by (simp add: double_def valid_point_infinity)
next
  case False
  note c = valid_pointD [OF v False]
  let ?m = "ec_mod p"
  let ?dy = "(3 * ec_x p * ec_x p + ec_a p) mod ?m"
  let ?dx = "(2 * ec_y p) mod ?m"
  from SECP256K1_P_pos c(4) have m0: "?m \<noteq> 0" by simp
  have nf: "\<not> (\<exists>e. mod_inverse ?dx ?m = Inl e)"
  proof
    assume "\<exists>e. mod_inverse ?dx ?m = Inl e"
    then obtain e where e: "mod_inverse ?dx ?m = Inl e" ..
    have "double p = Inl e"
      unfolding double_def Let_def by (simp only: False m0 e if_False sum.case)
    with r show False by simp
  qed
  then obtain i where i: "mod_inverse ?dx ?m = Inr i"
    by (cases "mod_inverse ?dx ?m") auto
  let ?s = "(?dy * i) mod ?m"
  let ?x3 = "(?s * ?s - ec_x p - ec_x p) mod ?m"
  let ?y3 = "(?s * (ec_x p - ?x3) - ec_y p) mod ?m"
  have "double p = Inr \<lparr>ec_x = ?x3, ec_y = ?y3, ec_a = ec_a p, ec_b = ec_b p, ec_mod = ?m\<rparr>"
    unfolding double_def Let_def by (simp only: False m0 i if_False sum.case)
  with r have q: "q = \<lparr>ec_x = ?x3, ec_y = ?y3, ec_a = ec_a p, ec_b = ec_b p, ec_mod = ?m\<rparr>"
    by simp
  from mod_inverse_Inr_D(1) [OF i] SECP256K1_P_pos c(4) have "(?dx * i) mod ?m = 1 mod ?m" by simp
  then have inv: "?m dvd (?dx * i - 1)" by (simp add: mod_eq_dvd_iff)
  have sl: "?m dvd (?s * (2 * ec_y p) - (3 * ec_x p * ec_x p + ec_a p))"
    by (rule double_slope_dvd [where dy = ?dy and dx = ?dx and i = i])
      (rule mod_dvd_diff inv)+
  from c have ce: "?m dvd ((ec_y p)^2 - ((ec_x p)^3 + ec_a p * ec_x p + ec_b p))" by simp
  have "?m dvd (?y3^2 - (?x3^3 + ec_a p * ?x3 + ec_b p))"
    by (rule double_core_dvd [OF ce sl]) (rule mod_dvd_diff)+
  then show ?thesis unfolding q c(2,3,4) by (rule valid_pointI)
qed

lemma add_valid:
  assumes v1: "valid_point p1" and v2: "valid_point p2" and r: "add p1 p2 = Inr q"
  shows "valid_point q"
proof -
  consider (i1) "ec_eq p1 infinity"
    | (i2) "\<not> ec_eq p1 infinity" "ec_eq p2 infinity"
    | (vert) "\<not> ec_eq p1 infinity" "\<not> ec_eq p2 infinity" "ec_x p1 = ec_x p2"
    | (gen) "\<not> ec_eq p1 infinity" "\<not> ec_eq p2 infinity" "ec_x p1 \<noteq> ec_x p2"
    by blast
  then show ?thesis
  proof cases
    case i1
    with r v2 show ?thesis by (simp add: add_def)
  next
    case i2
    with r v1 show ?thesis by (simp add: add_def)
  next
    case vert
    show ?thesis
    proof (cases "ec_y p1 = ec_y p2")
      case True
      with vert r have "double p1 = Inr q" by (simp add: add_def)
      with v1 show ?thesis by (rule double_valid)
    next
      case False
      with vert r show ?thesis by (simp add: add_def valid_point_infinity)
    qed
  next
    case gen
    note c1 = valid_pointD [OF v1 gen(1)] and c2 = valid_pointD [OF v2 gen(2)]
    let ?m = "ec_mod p1"
    let ?dy = "(ec_y p2 - ec_y p1) mod ?m"
    let ?dx = "(ec_x p2 - ec_x p1) mod ?m"
    from SECP256K1_P_pos c1(4) have m0: "?m \<noteq> 0" by simp
    have nf: "\<not> (\<exists>e. mod_inverse ?dx ?m = Inl e)"
    proof
      assume "\<exists>e. mod_inverse ?dx ?m = Inl e"
      then obtain e where e: "mod_inverse ?dx ?m = Inl e" ..
      have "add p1 p2 = Inl e"
        unfolding add_def Let_def by (simp only: gen m0 e if_False sum.case)
      with r show False by simp
    qed
    then obtain i where i: "mod_inverse ?dx ?m = Inr i"
      by (cases "mod_inverse ?dx ?m") auto
    let ?s = "(?dy * i) mod ?m"
    let ?x3 = "(?s * ?s - ec_x p1 - ec_x p2) mod ?m"
    let ?y3 = "(?s * (ec_x p1 - ?x3) - ec_y p1) mod ?m"
    have "add p1 p2 = Inr \<lparr>ec_x = ?x3, ec_y = ?y3, ec_a = ec_a p1, ec_b = ec_b p1, ec_mod = ?m\<rparr>"
      unfolding add_def Let_def by (simp only: gen m0 i if_False sum.case)
    with r have q: "q = \<lparr>ec_x = ?x3, ec_y = ?y3, ec_a = ec_a p1, ec_b = ec_b p1, ec_mod = ?m\<rparr>"
      by simp
    from mod_inverse_Inr_D(1) [OF i] SECP256K1_P_pos c1(4) have "(?dx * i) mod ?m = 1 mod ?m" by simp
    then have inv: "?m dvd (?dx * i - 1)" by (simp add: mod_eq_dvd_iff)
    from c1 have e1: "?m dvd ((ec_y p1)^2 - ((ec_x p1)^3 + ec_a p1 * ec_x p1 + ec_b p1))" by simp
    from c1 c2 have e2: "?m dvd ((ec_y p2)^2 - ((ec_x p2)^3 + ec_a p1 * ec_x p2 + ec_b p1))" by simp
    have "?m dvd (?y3^2 - (?x3^3 + ec_a p1 * ?x3 + ec_b p1))"
      by (rule add_formula_dvd [OF e1 e2, where dx = ?dx and dy = ?dy and i = i and s = ?s])
        (rule mod_dvd_diff inv)+
    then show ?thesis unfolding q c1(2,3,4) by (rule valid_pointI)
  qed
qed

lemma multiply_loop_valid:
  "valid_point temp \<Longrightarrow> valid_point p \<Longrightarrow> multiply_loop temp p x = Inr q \<Longrightarrow> valid_point q"
proof (induction temp p x rule: multiply_loop.induct)
  case (1 temp p x)
  show ?case
  proof (cases "x > 0")
    case False
    with "1.prems" show ?thesis by (simp add: multiply_loop.simps [of temp p x])
  next
    case True
    let ?t = "if x mod 2 \<noteq> 0 then (if ec_eq temp p then double temp else add temp p) else Inr temp"
    from True "1.prems"(3) obtain temp' where t: "?t = Inr temp'"
      by (cases ?t) (simp_all add: multiply_loop.simps [of temp p x])
    from True "1.prems"(3) t obtain p' where p: "double p = Inr p'"
      by (cases "double p") (simp_all add: multiply_loop.simps [of temp p x])
    from True "1.prems"(3) t p
    have rec: "multiply_loop temp' p' ((if x mod 2 \<noteq> 0 then x - 1 else x) div 2) = Inr q"
      by (simp add: multiply_loop.simps [of temp p x])
    have vt: "valid_point temp'"
    proof (cases "x mod 2 \<noteq> 0")
      case False
      with t "1.prems"(1) show ?thesis by simp
    next
      case odd: True
      show ?thesis
      proof (cases "ec_eq temp p")
        case True
        with odd t have "double temp = Inr temp'" by simp
        with "1.prems"(1) show ?thesis by (rule double_valid)
      next
        case False
        with odd t have "add temp p = Inr temp'" by simp
        with "1.prems"(1,2) show ?thesis by (rule add_valid)
      qed
    qed
    have vp: "valid_point p'" using p "1.prems"(2) by (rule double_valid [rotated])
    from "1.IH" [OF True t p vt vp rec] show ?thesis .
  qed
qed

lemma new_ECPoint_Inr: "new_ECPoint (ec_x p) (ec_y p) (ec_a p) (ec_b p) (ec_mod p) = Inr t \<Longrightarrow> t = p"
  by (auto simp: new_ECPoint_def split: if_splits sum.splits)

lemma multiply_valid:
  assumes "valid_point p" "multiply p k = Inr q"
  shows "valid_point q"
proof -
  from assms(2) obtain t where t: "new_ECPoint (ec_x p) (ec_y p) (ec_a p) (ec_b p) (ec_mod p) = Inr t"
    and l: "multiply_loop t p (k - 1) = Inr q"
    by (auto simp: multiply_def split: sum.splits)
  from new_ECPoint_Inr [OF t] assms(1) have "valid_point t" by simp
  from multiply_loop_valid [OF this assms(1) l] show ?thesis .
qed

text \<open>
  Claim C9.  \<^verbatim>\<open>add\<close> and \<^verbatim>\<open>double\<close> write the coordinates of their result into a
  placeholder \<^verbatim>\<open>ECPoint(0, 0)\<close>, so the assertion of the constructor never sees them.
  Still, for valid points of secp256k1 (on the curve, or the pair \<open>(0, 0)\<close>), every
  point that \<^verbatim>\<open>add\<close>, \<^verbatim>\<open>double\<close> or \<^verbatim>\<open>multiply\<close> returns is valid again; for
  \<^verbatim>\<open>multiply\<close> this holds for every scalar, in particular for \<open>k \<ge> 1\<close>.
\<close>

theorem curve_operations_closed:
  "valid_point P \<Longrightarrow> valid_point Q \<Longrightarrow>
   (\<forall>R. add P Q = Inr R \<longrightarrow> valid_point R) \<and>
   (\<forall>R. double P = Inr R \<longrightarrow> valid_point R) \<and>
   (\<forall>k R. multiply P k = Inr R \<longrightarrow> valid_point R)"
  using add_valid double_valid multiply_valid by blast

lemma add_eqI:
  assumes "\<not> ec_eq p1 infinity" "\<not> ec_eq p2 infinity" "ec_x p1 \<noteq> ec_x p2"
    and m: "ec_mod p1 = m" "1 < m"
    and dx: "(ec_x p2 - ec_x p1) mod m = dx"
    and dy: "(ec_y p2 - ec_y p1) mod m = dy"
    and i: "0 \<le> i" "i < m" "(dx * i) mod m = 1"
    and s: "(dy * i) mod m = s"
    and x3: "(s * s - ec_x p1 - ec_x p2) mod m = x3"
    and y3: "(s * (ec_x p1 - x3) - ec_y p1) mod m = y3"
  shows "add p1 p2 = Inr \<lparr>ec_x = x3, ec_y = y3, ec_a = ec_a p1, ec_b = ec_b p1, ec_mod = m\<rparr>"
proof -
  from dx m have "0 \<le> dx" by auto
  from mod_inverse_eqI [OF this m(2) i] have "mod_inverse dx m = Inr i" .
  with assms show ?thesis by (simp add: add_def Let_def)
qed

lemma double_eqI:
  assumes "\<not> ec_eq p infinity"
    and m: "ec_mod p = m" "1 < m"
    and dy: "(3 * ec_x p * ec_x p + ec_a p) mod m = dy"
    and dx: "(2 * ec_y p) mod m = dx"
    and i: "0 \<le> i" "i < m" "(dx * i) mod m = 1"
    and s: "(dy * i) mod m = s"
    and x3: "(s * s - ec_x p - ec_x p) mod m = x3"
    and y3: "(s * (ec_x p - x3) - ec_y p) mod m = y3"
  shows "double p = Inr \<lparr>ec_x = x3, ec_y = y3, ec_a = ec_a p, ec_b = ec_b p, ec_mod = m\<rparr>"
proof -
  from dx m have "0 \<le> dx" by auto
  from mod_inverse_eqI [OF this m(2) i] have "mod_inverse dx m = Inr i" .
  with assms show ?thesis by (simp add: double_def Let_def)
qed

lemma double_G: "double G = Inr G2"
proof -
  have "double G = Inr \<lparr>ec_x = ec_x G2, ec_y = ec_y G2, ec_a = ec_a G, ec_b = ec_b G,
      ec_mod = SECP256K1_P\<rparr>"
    by (rule double_eqI [where
          i = 83174505189910067536517124096019359197644205712500122884473429251812128958118])
      code_simp+
  also have "\<dots> = Inr G2" by code_simp
  finally show ?thesis .
qed

lemma add_G_G2: "add G G2 = Inr G3"
proof -
  have "add G G2 = Inr \<lparr>ec_x = ec_x G3, ec_y = ec_y G3, ec_a = ec_a G, ec_b = ec_b G,
      ec_mod = SECP256K1_P\<rparr>"
    by (rule add_eqI [where
          i = 78060072781723966975414539546189491444417828441135743216757131184955262264836])
      code_simp+
  also have "\<dots> = Inr G3" by code_simp
  finally show ?thesis .
qed

lemma new_ECPoint_G: "new_ECPoint (ec_x G) (ec_y G) (ec_a G) (ec_b G) (ec_mod G) = Inr G"
  using get_generator_point_eq by (simp add: get_generator_point_def G_def)

lemma multiply_G_2: "multiply G 2 = Inr G2"
  by (simp add: multiply_def new_ECPoint_G multiply_loop.simps [of G G 1]
      multiply_loop.simps [of G2 G2 0] ec_eq_def double_G)

lemma valid_point_G: "valid_point G"
  using G_on_curve by (simp add: valid_point_def G_def)

theorem curve_operations_closed_witness:
  "valid_point G \<and> valid_point G2 \<and> add G G2 = Inr G3 \<and> valid_point G3
   \<and> double G = Inr G2 \<and> multiply G 2 = Inr G2"
proof -
  have g2: "valid_point G2"
    using curve_operations_closed [OF valid_point_G valid_point_G] double_G by blast
  have "valid_point G3"
    using curve_operations_closed [OF valid_point_G g2] add_G_G2 by blast
  with g2 show ?thesis by (simp add: valid_point_G add_G_G2 double_G multiply_G_2)
qed

end
